theory Spec2Isabelle
  imports Main
begin

section \<open>Strings and numbers of the host language\<close>

text \<open>
  A JavaScript string is a sequence of UTF-16 code units. A code unit is modelled by its
  number, so a string is a list of naturals; \<open>js\<close> turns an ASCII literal into such a list.
\<close>

type_synonym jsstring = "nat list"

definition js :: "string \<Rightarrow> jsstring" where
  "js s = map of_char s"

text \<open>The double quote is code unit 34, the apostrophe 39, the line feed 10.\<close>

definition DQUOTE :: nat where
  "DQUOTE = 34"

definition APOSTROPHE :: nat where
  "APOSTROPHE = 39"

definition NEWLINE :: nat where
  "NEWLINE = 10"

text \<open>\<^verbatim>\<open>s.replace(/"/g, "'")\<close>\<close>

definition replace_quotes_by_apostrophes :: "jsstring \<Rightarrow> jsstring" where
  "replace_quotes_by_apostrophes s = map (\<lambda>c. if c = DQUOTE then APOSTROPHE else c) s"

text \<open>\<^verbatim>\<open>s.replace(/"/g, '""')\<close>\<close>

definition replace_quotes_by_doubled :: "jsstring \<Rightarrow> jsstring" where
  "replace_quotes_by_doubled s = concat (map (\<lambda>c. if c = DQUOTE then [DQUOTE, DQUOTE] else [c]) s)"

text \<open>
  \<^verbatim>\<open>String.prototype.trim\<close> strips white space and line terminators from both ends:
  U+0009, U+000B, U+000C, U+0020, U+00A0, U+FEFF, the space separators U+1680,
  U+2000 to U+200A, U+202F, U+205F, U+3000, and the line terminators U+000A, U+000D,
  U+2028, U+2029.
\<close>

definition isLineTerminator :: "nat \<Rightarrow> bool" where
  "isLineTerminator c = (c = 10 \<or> c = 13 \<or> c = 8232 \<or> c = 8233)"

definition isWhiteSpace :: "nat \<Rightarrow> bool" where
  "isWhiteSpace c =
     (c = 9 \<or> c = 11 \<or> c = 12 \<or> c = 32 \<or> c = 160 \<or> c = 65279 \<or> c = 5760
      \<or> (8192 \<le> c \<and> c \<le> 8202) \<or> c = 8239 \<or> c = 8287 \<or> c = 12288)"

definition trim :: "jsstring \<Rightarrow> jsstring" where
  "trim s =
     (let strip = dropWhile (\<lambda>c. isWhiteSpace c \<or> isLineTerminator c)
      in rev (strip (rev (strip s))))"

text \<open>\<^verbatim>\<open>parts.join(sep)\<close>\<close>

fun join :: "jsstring \<Rightarrow> jsstring list \<Rightarrow> jsstring" where
  "join sep [] = []"
| "join sep [x] = x"
| "join sep (x # y # ys) = x @ sep @ join sep (y # ys)"

text \<open>\<^verbatim>\<open>s || ''\<close> on a string: the empty string is falsy and is replaced by the empty string.\<close>

definition or_empty :: "jsstring \<Rightarrow> jsstring" where
  "or_empty s = (if s = [] then [] else s)"

text \<open>
  A number value is an IEEE double. The program does two things with a number: it turns
  it into a string (in a template literal and in \<^verbatim>\<open>Array.prototype.join\<close>, both by
  \<^verbatim>\<open>Number::toString\<close>), and it compares it with zero by \<^verbatim>\<open>!== 0\<close>.
  \<^verbatim>\<open>Number::toString\<close> gives different strings for different values, except that
  positive and negative zero both give \<^verbatim>\<open>0\<close>; and \<^verbatim>\<open>x !== 0\<close> is false for exactly
  these two values. So a number value is represented by the string that
  \<^verbatim>\<open>Number::toString\<close> gives for it (\<^verbatim>\<open>2\<close>, \<^verbatim>\<open>19.99\<close>, \<^verbatim>\<open>-5\<close>,
  \<^verbatim>\<open>1152921504606847000\<close>, \<^verbatim>\<open>1e+21\<close>, \<^verbatim>\<open>NaN\<close>, \<^verbatim>\<open>Infinity\<close>), and negative zero
  is a value of its own. The type also has values whose string is the rendering of no
  double; what is proved for all values of the type holds for the number values among them.
\<close>

datatype jsnumber = Number jsstring | NegativeZero

fun number_to_string :: "jsnumber \<Rightarrow> jsstring" where
  "number_to_string (Number s) = s"
| "number_to_string NegativeZero = js ''0''"

text \<open>\<^verbatim>\<open>x === 0\<close>: true for positive and for negative zero, false for every other value.\<close>

definition strictly_zero :: "jsnumber \<Rightarrow> bool" where
  "strictly_zero x = (x = Number (js ''0'') \<or> x = NegativeZero)"

section \<open>Data model (types.ts)\<close>

record LineItem =
  description :: jsstring
  quantity :: jsnumber
  unitPrice :: jsnumber
  total :: jsnumber

record InvoiceData =
  invoiceDate :: jsstring
  invoiceNumber :: jsstring
  poNumber :: jsstring
  quotationNumber :: jsstring
  totalAmount :: jsnumber
  currency :: jsstring
  items :: "LineItem list"

datatype AppStatus = IDLE | ANALYZING | SUCCESS | ERROR

text \<open>Of a browser \<^verbatim>\<open>File\<close> the program reads the name and the media type.\<close>

record File =
  file_name :: jsstring
  file_type :: jsstring

text \<open>
  The field \<^verbatim>\<open>file\<close> is written \<open>file'\<close>, \<^verbatim>\<open>id\<close> is written \<open>item_id\<close>. The optional fields \<^verbatim>\<open>result?\<close> and \<^verbatim>\<open>error?\<close> are \<open>None\<close> when undefined.\<close>

record InvoiceSessionItem =
  item_id :: jsstring
  file' :: File
  previewUrl :: jsstring
  status :: AppStatus
  result :: "InvoiceData option"
  error :: "jsstring option"

section \<open>CSV export (handleExportCSV in App.tsx)\<close>

definition successItems :: "InvoiceSessionItem list \<Rightarrow> InvoiceSessionItem list" where
  "successItems its = filter (\<lambda>i. status i = SUCCESS \<and> result i \<noteq> None) its"

definition headers :: "jsstring list" where
  "headers =
     [js ''File Name'', js ''Invoice Date'', js ''Invoice Number'', js ''PO Number'',
      js ''Quotation Number'', js ''Currency'', js ''Items Details'',
      js ''Invoice Total Amount'']"

definition validItems :: "InvoiceData \<Rightarrow> LineItem list" where
  "validItems data = filter (\<lambda>lineItem. \<not> strictly_zero (total lineItem)) (items data)"

definition safeDesc :: "LineItem \<Rightarrow> jsstring" where
  "safeDesc lineItem = trim (replace_quotes_by_apostrophes (description lineItem))"

definition item_text :: "LineItem \<Rightarrow> jsstring" where
  "item_text lineItem =
     safeDesc lineItem @ js '' (Qty: '' @ number_to_string (quantity lineItem)
       @ js '', Unit: '' @ number_to_string (unitPrice lineItem)
       @ js '', Total: '' @ number_to_string (total lineItem) @ js '')''"

definition itemsSummary :: "InvoiceData \<Rightarrow> jsstring" where
  "itemsSummary data = join [NEWLINE] (map item_text (validItems data))"

definition quoted :: "jsstring \<Rightarrow> jsstring" where
  "quoted s = [DQUOTE] @ s @ [DQUOTE]"

text \<open>The eight cells of one row, in column order.\<close>

definition row_cells :: "InvoiceSessionItem \<Rightarrow> InvoiceData \<Rightarrow> jsstring list" where
  "row_cells item data =
     [quoted (replace_quotes_by_doubled (file_name (file' item))),
      quoted (or_empty (invoiceDate data)),
      quoted (or_empty (invoiceNumber data)),
      quoted (or_empty (poNumber data)),
      quoted (or_empty (quotationNumber data)),
      quoted (or_empty (currency data)),
      quoted (itemsSummary data),
      number_to_string (totalAmount data)]"

text \<open>
  One row per element of \<open>successItems\<close>. \<open>the\<close> is the non-null assertion
  \<^verbatim>\<open>item.result!\<close>; the filter before it keeps only items whose result is present.
\<close>

definition csv_rows :: "InvoiceSessionItem list \<Rightarrow> jsstring list" where
  "csv_rows its =
     map (\<lambda>item. join (js '','') (row_cells item (the (result item)))) (successItems its)"

definition csvContent :: "InvoiceSessionItem list \<Rightarrow> jsstring" where
  "csvContent its =
     join (js '','') headers @ [NEWLINE]
       @ concat (map (\<lambda>row. row @ [NEWLINE]) (csv_rows its))"

section \<open>Extraction client (analyzeInvoiceImage)\<close>

text \<open>Values that the program throws or that reject a promise.\<close>

datatype exn = Error jsstring | SyntaxError | Rejected

text \<open>The \<^verbatim>\<open>inlineData\<close> part of the request: declared content type and payload.\<close>

record inlineData =
  inline_mimeType :: jsstring
  inline_data :: jsstring

fun starts_with :: "jsstring \<Rightarrow> jsstring \<Rightarrow> bool" where
  "starts_with [] s = True"
| "starts_with (p # ps) [] = False"
| "starts_with (p # ps) (c # cs) = (p = c \<and> starts_with ps cs)"

text \<open>
  The lazy group \<^verbatim>\<open>(.*?)\<close> followed by a literal: at every position the literal is tried
  first; when it does not match there, the group takes one more code unit, which must not
  be a line terminator. The result is the group and the input left after the literal.
\<close>

fun lazy_group_then :: "jsstring \<Rightarrow> jsstring \<Rightarrow> (jsstring \<times> jsstring) option" where
  "lazy_group_then lit [] = (if lit = [] then Some ([], []) else None)"
| "lazy_group_then lit (c # cs) =
     (if starts_with lit (c # cs) then Some ([], drop (length lit) (c # cs))
      else if isLineTerminator c then None
      else map_option (\<lambda>(g, r). (c # g, r)) (lazy_group_then lit cs))"

text \<open>\<^verbatim>\<open>/^data:(.*?);base64,/\<close>: group 1 and the input after the match.\<close>

definition header_match :: "jsstring \<Rightarrow> (jsstring \<times> jsstring) option" where
  "header_match s =
     (if starts_with (js ''data:'') s
      then lazy_group_then (js '';base64,'') (drop (length (js ''data:'')) s)
      else None)"

text \<open>Lines 54 to 69: the content type and payload sent for an encoded document.\<close>

definition analyzeInvoiceImage_request :: "jsstring \<Rightarrow> inlineData" where
  "analyzeInvoiceImage_request base64Data =
     (let mimeMatch = header_match base64Data;
          mimeType = (case mimeMatch of Some (g, r) \<Rightarrow> g | None \<Rightarrow> js ''image/jpeg'');
          cleanBase64 = (case header_match base64Data of Some (g, r) \<Rightarrow> r | None \<Rightarrow> base64Data)
      in \<lparr>inline_mimeType = mimeType, inline_data = cleanBase64\<rparr>)"

text \<open>
  Lines 82 to 93: what the client returns for a settled request. The request either
  rejects or resolves with a response whose \<^verbatim>\<open>text\<close> may be undefined; an undefined or
  empty text is thrown as an error, any other text is given to \<^verbatim>\<open>JSON.parse\<close>, which
  is a parameter of the model.
\<close>

definition analyzeInvoiceImage_result ::
  "(jsstring \<Rightarrow> exn + InvoiceData) \<Rightarrow> exn + jsstring option \<Rightarrow> exn + InvoiceData" where
  "analyzeInvoiceImage_result parse response =
     (case response of
        Inl e \<Rightarrow> Inl e
      | Inr None \<Rightarrow> Inl (Error (js ''No data returned from Gemini.''))
      | Inr (Some text) \<Rightarrow>
          if text = [] then Inl (Error (js ''No data returned from Gemini.''))
          else parse text)"

definition analyzeInvoiceImage ::
  "(inlineData \<Rightarrow> exn + jsstring option) \<Rightarrow> (jsstring \<Rightarrow> exn + InvoiceData) \<Rightarrow> jsstring
     \<Rightarrow> exn + InvoiceData" where
  "analyzeInvoiceImage generateContent parse base64Data =
     analyzeInvoiceImage_result parse (generateContent (analyzeInvoiceImage_request base64Data))"

section \<open>Session store and orchestration (App.tsx)\<close>

subsection \<open>The three store updates of analyzeItem\<close>

text \<open>The fixed failure message of line 57, four code units outside ASCII.\<close>

definition FAILURE_MESSAGE :: jsstring where
  "FAILURE_MESSAGE = [35672, 21029, 22833, 25943]"

text \<open>Line 49.\<close>

definition set_analyzing :: "jsstring \<Rightarrow> InvoiceSessionItem list \<Rightarrow> InvoiceSessionItem list" where
  "set_analyzing target prev =
     map (\<lambda>i. if item_id i = target then i\<lparr>status := ANALYZING, error := None\<rparr> else i) prev"

text \<open>Line 54.\<close>

definition set_success ::
  "jsstring \<Rightarrow> InvoiceData \<Rightarrow> InvoiceSessionItem list \<Rightarrow> InvoiceSessionItem list" where
  "set_success target res prev =
     map (\<lambda>i. if item_id i = target then i\<lparr>status := SUCCESS, result := Some res\<rparr> else i) prev"

text \<open>Line 57.\<close>

definition set_error :: "jsstring \<Rightarrow> InvoiceSessionItem list \<Rightarrow> InvoiceSessionItem list" where
  "set_error target prev =
     map (\<lambda>i. if item_id i = target then i\<lparr>status := ERROR, error := Some FAILURE_MESSAGE\<rparr> else i)
       prev"

subsection \<open>Application state\<close>

text \<open>
  A call of \<^verbatim>\<open>analyzeItem\<close> or \<^verbatim>\<open>handleAnalyzeAll\<close> is suspended at its two
  \<^verbatim>\<open>await\<close>s: while the file is read (\<open>Encoding\<close>) and while the request is in flight
  (\<open>Requesting\<close>). A suspended call holds the item it was given, as it was when the call
  read it, and the items its loop has still to visit.
\<close>

datatype activity = Encoding InvoiceSessionItem | Requesting InvoiceSessionItem | Finished

record task =
  activity :: activity
  remaining :: "InvoiceSessionItem list"

text \<open>
  What a call does to the outside, in order: a store update for an item id, and a request
  issued for an item id. Each entry of the trace carries the index of the call.
\<close>

datatype effect = StatusUpdate jsstring AppStatus | RequestIssued jsstring inlineData

record download =
  download_name :: jsstring
  download_type :: jsstring
  download_content :: jsstring

text \<open>
  The two pieces of component state, with the preview URLs revoked so far, the files
  handed to the browser for download, the suspended calls and the trace.
\<close>

record app =
  session_items :: "InvoiceSessionItem list"
  activeItemId :: "jsstring option"
  revokedUrls :: "jsstring list"
  downloads :: "download list"
  tasks :: "task list"
  trace :: "(nat \<times> effect) list"

definition init_app :: app where
  "init_app =
     \<lparr>session_items = [], activeItemId = None, revokedUrls = [], downloads = [],
      tasks = [], trace = []\<rparr>"

text \<open>Line 11.\<close>

definition activeItem :: "app \<Rightarrow> InvoiceSessionItem option" where
  "activeItem st = find (\<lambda>item. Some (item_id item) = activeItemId st) (session_items st)"

text \<open>A string or null used as a condition: null and the empty string are falsy.\<close>

definition truthy :: "jsstring option \<Rightarrow> bool" where
  "truthy v = (case v of None \<Rightarrow> False | Some s \<Rightarrow> s \<noteq> [])"

subsection \<open>Upload, removal, edit\<close>

text \<open>
  Lines 20 to 37. Each file comes with the identifier and the object URL that the platform
  generated for it.
\<close>

definition handleFilesSelect :: "(File \<times> jsstring \<times> jsstring) list \<Rightarrow> app \<Rightarrow> app" where
  "handleFilesSelect files st =
     (let newItems =
            map (\<lambda>(f, uuid, url).
                   \<lparr>item_id = uuid, file' = f, previewUrl = url, status = IDLE,
                    result = None, error = None\<rparr>) files
      in st\<lparr>session_items := session_items st @ newItems,
            activeItemId :=
              (case newItems of
                 [] \<Rightarrow> activeItemId st
               | x # xs \<Rightarrow>
                   if \<not> truthy (activeItemId st) then Some (item_id x) else Some (item_id x))\<rparr>)"

text \<open>Lines 76 to 95.\<close>

definition handleRemoveItem :: "jsstring \<Rightarrow> app \<Rightarrow> app" where
  "handleRemoveItem rid st =
     (let itemToRemove = find (\<lambda>i. item_id i = rid) (session_items st);
          newItems = filter (\<lambda>i. item_id i \<noteq> rid) (session_items st)
      in st\<lparr>session_items := newItems,
            activeItemId :=
              (if activeItemId st = Some rid
               then (case newItems of [] \<Rightarrow> None | x # xs \<Rightarrow> Some (item_id x))
               else activeItemId st),
            revokedUrls :=
              (case itemToRemove of
                 None \<Rightarrow> revokedUrls st
               | Some it \<Rightarrow> revokedUrls st @ [previewUrl it])\<rparr>)"

text \<open>Lines 97 to 101.\<close>

definition handleDataChange :: "InvoiceData \<Rightarrow> app \<Rightarrow> app" where
  "handleDataChange newData st =
     (if truthy (activeItemId st)
      then st\<lparr>session_items :=
                map (\<lambda>i. if Some (item_id i) = activeItemId st then i\<lparr>result := Some newData\<rparr> else i)
                  (session_items st)\<rparr>
      else st)"

text \<open>
  Lines 103 to 157. \<open>now\<close> is \<^verbatim>\<open>new Date().toISOString()\<close>. The file content starts with
  the byte-order mark U+FEFF.
\<close>

definition handleExportCSV :: "jsstring \<Rightarrow> app \<Rightarrow> app" where
  "handleExportCSV now st =
     (if successItems (session_items st) = [] then st
      else st\<lparr>downloads :=
                downloads st @
                  [\<lparr>download_name = js ''invoices_export_'' @ take 10 now @ js ''.csv'',
                    download_type = js ''text/csv;charset=utf-8;'',
                    download_content = 65279 # csvContent (session_items st)\<rparr>]\<rparr>)"

subsection \<open>analyzeItem, from one suspension point to the next\<close>

text \<open>
  A store update is applied where \<^verbatim>\<open>setItems\<close> is called with its updater: the store
  operations are synchronous replacements of the whole collection.

  Line 49: the call with index \<open>k\<close> marks its item, then waits for the file read.
\<close>

definition analyzeItem_begin :: "nat \<Rightarrow> InvoiceSessionItem \<Rightarrow> app \<Rightarrow> app" where
  "analyzeItem_begin k item st =
     st\<lparr>session_items := set_analyzing (item_id item) (session_items st),
        trace := trace st @ [(k, StatusUpdate (item_id item) ANALYZING)]\<rparr>"

text \<open>Line 54.\<close>

definition analyzeItem_succeed :: "nat \<Rightarrow> InvoiceSessionItem \<Rightarrow> InvoiceData \<Rightarrow> app \<Rightarrow> app" where
  "analyzeItem_succeed k item res st =
     st\<lparr>session_items := set_success (item_id item) res (session_items st),
        trace := trace st @ [(k, StatusUpdate (item_id item) SUCCESS)]\<rparr>"

text \<open>Lines 55 to 58.\<close>

definition analyzeItem_catch :: "nat \<Rightarrow> InvoiceSessionItem \<Rightarrow> app \<Rightarrow> app" where
  "analyzeItem_catch k item st =
     st\<lparr>session_items := set_error (item_id item) (session_items st),
        trace := trace st @ [(k, StatusUpdate (item_id item) ERROR)]\<rparr>"

text \<open>
  Lines 71 to 73: when \<^verbatim>\<open>analyzeItem\<close> has returned, the loop of call \<open>k\<close> takes its next
  item and begins it at once, or the call ends. A call outside the loop has no next item.
\<close>

definition continue_loop :: "nat \<Rightarrow> InvoiceSessionItem list \<Rightarrow> app \<Rightarrow> app" where
  "continue_loop k rest st =
     (case rest of
        [] \<Rightarrow> st\<lparr>tasks := (tasks st)[k := \<lparr>activity = Finished, remaining = []\<rparr>]\<rparr>
      | x # xs \<Rightarrow>
          analyzeItem_begin k x
            (st\<lparr>tasks := (tasks st)[k := \<lparr>activity = Encoding x, remaining = xs\<rparr>]\<rparr>))"

text \<open>
  Lines 52 and 53: the file read of call \<open>k\<close> settles. A rejection goes to the catch block;
  a data URL is handed to the extraction client, which issues its request.
\<close>

definition analyzeItem_encoded ::
  "nat \<Rightarrow> InvoiceSessionItem \<Rightarrow> InvoiceSessionItem list \<Rightarrow> exn + jsstring \<Rightarrow> app \<Rightarrow> app" where
  "analyzeItem_encoded k item rest r st =
     (case r of
        Inl e \<Rightarrow> continue_loop k rest (analyzeItem_catch k item st)
      | Inr base64 \<Rightarrow>
          st\<lparr>tasks := (tasks st)[k := \<lparr>activity = Requesting item, remaining = rest\<rparr>],
             trace := trace st @
               [(k, RequestIssued (item_id item) (analyzeInvoiceImage_request base64))]\<rparr>)"

text \<open>Lines 53 to 58: the request of call \<open>k\<close> settles.\<close>

definition analyzeItem_responded ::
  "(jsstring \<Rightarrow> exn + InvoiceData) \<Rightarrow> nat \<Rightarrow> InvoiceSessionItem \<Rightarrow> InvoiceSessionItem list
     \<Rightarrow> exn + jsstring option \<Rightarrow> app \<Rightarrow> app" where
  "analyzeItem_responded parse k item rest r st =
     (case analyzeInvoiceImage_result parse r of
        Inl e \<Rightarrow> continue_loop k rest (analyzeItem_catch k item st)
      | Inr res \<Rightarrow> continue_loop k rest (analyzeItem_succeed k item res st))"

text \<open>A new call that is to run \<^verbatim>\<open>analyzeItem\<close> on the given items, in order.\<close>

definition start_call :: "InvoiceSessionItem list \<Rightarrow> app \<Rightarrow> app" where
  "start_call its st =
     (case its of
        [] \<Rightarrow> st
      | x # xs \<Rightarrow>
          analyzeItem_begin (length (tasks st)) x
            (st\<lparr>tasks := tasks st @ [\<lparr>activity = Encoding x, remaining = xs\<rparr>]\<rparr>))"

text \<open>Lines 61 to 65.\<close>

definition handleAnalyzeActive :: "app \<Rightarrow> app" where
  "handleAnalyzeActive st =
     (case activeItem st of None \<Rightarrow> st | Some item \<Rightarrow> start_call [item] st)"

text \<open>Lines 67 to 74.\<close>

definition pendingItems :: "InvoiceSessionItem list \<Rightarrow> InvoiceSessionItem list" where
  "pendingItems its = filter (\<lambda>i. status i = IDLE \<or> status i = ERROR) its"

definition handleAnalyzeAll :: "app \<Rightarrow> app" where
  "handleAnalyzeAll st = start_call (pendingItems (session_items st)) st"

subsection \<open>Events\<close>

text \<open>
  What can happen to the running application: the user's actions, each enabled only
  where the rendered page offers it, and the settling of a suspended call's file read or
  request. An event that is not enabled has no successor state.
\<close>

datatype event =
    FilesSelect "(File \<times> jsstring \<times> jsstring) list"
  | ClickItem jsstring
  | ClickRemove jsstring
  | ClickAnalyzeActive
  | ClickAnalyzeAll
  | ClickExport jsstring
  | EditData InvoiceData
  | FileRead nat "exn + jsstring"
  | Responded nat "exn + jsstring option"

fun step :: "(jsstring \<Rightarrow> exn + InvoiceData) \<Rightarrow> app \<Rightarrow> event \<Rightarrow> app option" where
  "step parse st (FilesSelect files) =
     (if files = [] then None else Some (handleFilesSelect files st))"
| "step parse st (ClickItem i) =
     (if list_ex (\<lambda>item. item_id item = i) (session_items st)
      then Some (st\<lparr>activeItemId := Some i\<rparr>) else None)"
| "step parse st (ClickRemove i) =
     (if list_ex (\<lambda>item. item_id item = i) (session_items st)
      then Some (handleRemoveItem i st) else None)"
| "step parse st ClickAnalyzeActive =
     (case activeItem st of
        None \<Rightarrow> None
      | Some item \<Rightarrow>
          if status item = IDLE \<or> status item = ERROR then Some (handleAnalyzeActive st)
          else None)"
| "step parse st ClickAnalyzeAll =
     (if list_ex (\<lambda>i. status i = IDLE \<or> status i = ERROR) (session_items st)
      then Some (handleAnalyzeAll st) else None)"
| "step parse st (ClickExport now) =
     (if list_ex (\<lambda>i. status i = SUCCESS) (session_items st)
      then Some (handleExportCSV now st) else None)"
| "step parse st (EditData newData) =
     (case activeItem st of
        None \<Rightarrow> None
      | Some item \<Rightarrow> if result item = None then None else Some (handleDataChange newData st))"
| "step parse st (FileRead k r) =
     (if k < length (tasks st)
      then (case activity (tasks st ! k) of
              Encoding item \<Rightarrow> Some (analyzeItem_encoded k item (remaining (tasks st ! k)) r st)
            | Requesting item \<Rightarrow> None
            | Finished \<Rightarrow> None)
      else None)"
| "step parse st (Responded k r) =
     (if k < length (tasks st)
      then (case activity (tasks st ! k) of
              Encoding item \<Rightarrow> None
            | Requesting item \<Rightarrow>
                Some (analyzeItem_responded parse k item (remaining (tasks st ! k)) r st)
            | Finished \<Rightarrow> None)
      else None)"

fun run :: "(jsstring \<Rightarrow> exn + InvoiceData) \<Rightarrow> app \<Rightarrow> event list \<Rightarrow> app option" where
  "run parse st [] = Some st"
| "run parse st (e # es) =
     (case step parse st e of None \<Rightarrow> None | Some st' \<Rightarrow> run parse st' es)"

text \<open>The effects of call \<open>k\<close>, in the order they happened.\<close>

definition effects_of :: "nat \<Rightarrow> (nat \<times> effect) list \<Rightarrow> effect list" where
  "effects_of k tr = map snd (filter (\<lambda>te. fst te = k) tr)"

section \<open>Properties as predicates\<close>

text \<open>
  A string begins with a data-URI header when it is \<^verbatim>\<open>data:\<close>, any type, \<^verbatim>\<open>;base64,\<close>
  and a payload.
\<close>

fun contains :: "jsstring \<Rightarrow> jsstring \<Rightarrow> bool" where
  "contains lit [] = (lit = [])"
| "contains lit (c # cs) = (starts_with lit (c # cs) \<or> contains lit cs)"

definition begins_with_data_uri_header :: "jsstring \<Rightarrow> bool" where
  "begins_with_data_uri_header s =
     (starts_with (js ''data:'') s \<and> contains (js '';base64,'') (drop (length (js ''data:'')) s))"

text \<open>
  The text of a line item in the items cell as the specification words it: the description
  as it is, followed by the quantity, unit price and total.
\<close>

definition claimed_item_text :: "LineItem \<Rightarrow> jsstring" where
  "claimed_item_text lineItem =
     description lineItem @ js '' (Qty: '' @ number_to_string (quantity lineItem)
       @ js '', Unit: '' @ number_to_string (unitPrice lineItem)
       @ js '', Total: '' @ number_to_string (total lineItem) @ js '')''"

text \<open>
  One call working through its selected documents one at a time. Between two documents
  nothing is pending; a document is first marked by its \<open>ANALYZING\<close> update, then its request
  may be issued, and its final update (\<open>ERROR\<close> when the file read failed, \<open>SUCCESS\<close> or
  \<open>ERROR\<close> after the request) returns the call to between documents. \<open>follow\<close> accepts an
  effect only when it is the next one of this discipline, and only for the document at the
  head of what is left of the selection.
\<close>

datatype progress = Between | Marked InvoiceSessionItem | InFlight InvoiceSessionItem

fun follow ::
  "progress \<times> InvoiceSessionItem list \<Rightarrow> effect \<Rightarrow> (progress \<times> InvoiceSessionItem list) option" where
  "follow (Between, p # ps) (StatusUpdate i s) =
     (if i = item_id p \<and> s = ANALYZING then Some (Marked p, ps) else None)"
| "follow (Marked p, ps) (RequestIssued i rq) =
     (if i = item_id p then Some (InFlight p, ps) else None)"
| "follow (Marked p, ps) (StatusUpdate i s) =
     (if i = item_id p \<and> s = ERROR then Some (Between, ps) else None)"
| "follow (InFlight p, ps) (StatusUpdate i s) =
     (if i = item_id p \<and> (s = SUCCESS \<or> s = ERROR) then Some (Between, ps) else None)"
| "follow c e = None"

fun follow_all ::
  "progress \<times> InvoiceSessionItem list \<Rightarrow> effect list
     \<Rightarrow> (progress \<times> InvoiceSessionItem list) option" where
  "follow_all c [] = Some c"
| "follow_all c (e # es) = (case follow c e of None \<Rightarrow> None | Some c' \<Rightarrow> follow_all c' es)"

definition one_at_a_time :: "InvoiceSessionItem list \<Rightarrow> effect list \<Rightarrow> bool" where
  "one_at_a_time selected es = (follow_all (Between, selected) es \<noteq> None)"

definition all_processed :: "InvoiceSessionItem list \<Rightarrow> effect list \<Rightarrow> bool" where
  "all_processed selected es = (follow_all (Between, selected) es = Some (Between, []))"

text \<open>
  The number of final updates among some effects, and the item id an effect is about.
\<close>

fun is_final :: "effect \<Rightarrow> bool" where
  "is_final (StatusUpdate i s) = (s = SUCCESS \<or> s = ERROR)"
| "is_final (RequestIssued i rq) = False"

definition final_updates :: "effect list \<Rightarrow> nat" where
  "final_updates es = length (filter is_final es)"

fun effect_id :: "effect \<Rightarrow> jsstring" where
  "effect_id (StatusUpdate i s) = i"
| "effect_id (RequestIssued i rq) = i"

subsection \<open>Invariants of the suspended calls\<close>

text \<open>
  Where the discipline stands for a suspended call; that every trace entry belongs to an
  existing call; that the effects of call \<open>k\<close> so far lead from the selection \<open>ps\<close> to where
  the call stands; what one resumption of call \<open>j\<close> does (it replaces task \<open>j\<close> and appends
  effects of call \<open>j\<close> that the discipline accepts); and the position in the selection that
  a number of final updates corresponds to.
\<close>

definition progress_of :: "task \<Rightarrow> progress \<times> InvoiceSessionItem list" where
  "progress_of t =
     (case activity t of
        Encoding p \<Rightarrow> (Marked p, remaining t)
      | Requesting p \<Rightarrow> (InFlight p, remaining t)
      | Finished \<Rightarrow> (Between, []))"

definition trace_wf :: "app \<Rightarrow> bool" where
  "trace_wf st = (\<forall>te \<in> set (trace st). fst te < length (tasks st))"

definition call_inv :: "InvoiceSessionItem list \<Rightarrow> nat \<Rightarrow> app \<Rightarrow> bool" where
  "call_inv ps k st =
     (k < length (tasks st)
      \<and> follow_all (Between, ps) (effects_of k (trace st)) = Some (progress_of (tasks st ! k)))"

definition resumes :: "nat \<Rightarrow> task \<Rightarrow> app \<Rightarrow> app \<Rightarrow> bool" where
  "resumes j t st st' =
     (\<exists>t' es. tasks st' = (tasks st)[j := t'] \<and> trace st' = trace st @ map (Pair j) es
        \<and> follow_all (progress_of t) es = Some (progress_of t'))"

definition at_position :: "InvoiceSessionItem list \<Rightarrow> nat \<Rightarrow> progress \<times> InvoiceSessionItem list \<Rightarrow> bool" where
  "at_position ps f c =
     (c = (Between, drop f ps)
      \<or> (f < length ps \<and> (c = (Marked (ps ! f), drop (Suc f) ps) \<or> c = (InFlight (ps ! f), drop (Suc f) ps))))"

subsection \<open>An example session\<close>

text \<open>
  Two uploaded images; an invoice with one line item; an invoice number and a description
  that contain a double quote; an invoice whose numbers include zero, negative zero,
  decimals, a large integer and NaN; the session in which the first document is analysed
  successfully, the second fails at the endpoint, and the result is exported; and a run in
  which the batch button is pressed a second time while the first batch is still at its
  first document.
\<close>

definition widget_invoice :: InvoiceData where
  "widget_invoice =
     \<lparr>invoiceDate = js ''2024-05-01'', invoiceNumber = js ''INV-1'', poNumber = [],
      quotationNumber = [], totalAmount = Number (js ''1000''), currency = js ''USD'',
      items =
        [\<lparr>description = js ''Widget'', quantity = Number (js ''2''),
          unitPrice = Number (js ''500''), total = Number (js ''1000'')\<rparr>]\<rparr>"

definition example_upload :: "(File \<times> jsstring \<times> jsstring) list" where
  "example_upload =
     [(\<lparr>file_name = js ''a.png'', file_type = js ''image/png''\<rparr>, js ''id-1'', js ''blob:1''),
      (\<lparr>file_name = js ''b.png'', file_type = js ''image/png''\<rparr>, js ''id-2'', js ''blob:2'')]"

definition example_parse :: "jsstring \<Rightarrow> exn + InvoiceData" where
  "example_parse text = Inr widget_invoice"

definition first_doc :: InvoiceSessionItem where
  "first_doc =
     \<lparr>item_id = js ''id-1'', file' = \<lparr>file_name = js ''a.png'', file_type = js ''image/png''\<rparr>,
      previewUrl = js ''blob:1'', status = IDLE, result = None, error = None\<rparr>"

definition second_doc :: InvoiceSessionItem where
  "second_doc =
     \<lparr>item_id = js ''id-2'', file' = \<lparr>file_name = js ''b.png'', file_type = js ''image/png''\<rparr>,
      previewUrl = js ''blob:2'', status = IDLE, result = None, error = None\<rparr>"

definition two_uploaded :: app where
  "two_uploaded = handleFilesSelect example_upload init_app"

definition quoted_number_invoice :: InvoiceData where
  "quoted_number_invoice = widget_invoice\<lparr>invoiceNumber := js ''A'' @ [DQUOTE] @ js ''B''\<rparr>"

definition padded_invoice :: InvoiceData where
  "padded_invoice =
     widget_invoice
       \<lparr>items :=
          [\<lparr>description = js '' 5'' @ [DQUOTE] @ js '' pipe'', quantity = Number (js ''1''),
            unitPrice = Number (js ''3''), total = Number (js ''3'')\<rparr>]\<rparr>"

definition mixed_numbers_invoice :: InvoiceData where
  "mixed_numbers_invoice =
     widget_invoice
       \<lparr>items :=
          [\<lparr>description = js ''A'', quantity = Number (js ''1''), unitPrice = Number (js ''0''),
            total = Number (js ''0'')\<rparr>,
           \<lparr>description = js ''B'', quantity = Number (js ''1.5''),
            unitPrice = Number (js ''19.99''), total = Number (js ''29.985'')\<rparr>,
           \<lparr>description = js ''C'', quantity = Number (js ''3''), unitPrice = NegativeZero,
            total = NegativeZero\<rparr>,
           \<lparr>description = js ''D'', quantity = Number (js ''NaN''),
            unitPrice = Number (js ''1152921504606847000''), total = Number (js ''NaN'')\<rparr>]\<rparr>"

definition export_session :: "event list" where
  "export_session =
     [FilesSelect example_upload, ClickAnalyzeAll,
      FileRead 0 (Inr (js ''data:image/png;base64,AAAA'')),
      Responded 0 (Inr (Some (js ''{}''))),
      FileRead 0 (Inr (js ''data:image/png;base64,BBBB'')),
      Responded 0 (Inl Rejected),
      ClickExport (js ''2024-05-01T08:30:00.000Z'')]"

definition overlapping_batches :: "event list" where
  "overlapping_batches =
     [FilesSelect example_upload, ClickAnalyzeAll, ClickAnalyzeAll,
      FileRead 1 (Inr (js ''data:image/png;base64,AAAA'')),
      Responded 1 (Inr (Some (js ''{}''))),
      FileRead 0 (Inr (js ''data:image/png;base64,AAAA''))]"

section \<open>Evaluation of the definitions\<close>

lemmas model_defs =
  init_app_def handleFilesSelect_def handleAnalyzeAll_def handleAnalyzeActive_def start_call_def
  pendingItems_def analyzeItem_begin_def analyzeItem_succeed_def analyzeItem_catch_def
  continue_loop_def analyzeItem_encoded_def analyzeItem_responded_def
  analyzeInvoiceImage_result_def set_analyzing_def set_success_def set_error_def
  activeItem_def truthy_def handleRemoveItem_def handleDataChange_def

lemmas string_defs =
  js_def DQUOTE_def APOSTROPHE_def NEWLINE_def replace_quotes_by_apostrophes_def
  replace_quotes_by_doubled_def isLineTerminator_def isWhiteSpace_def trim_def or_empty_def
  strictly_zero_def

lemmas export_defs =
  validItems_def safeDesc_def item_text_def itemsSummary_def quoted_def row_cells_def

lemmas example_defs =
  widget_invoice_def example_upload_def example_parse_def first_doc_def second_doc_def
  two_uploaded_def

lemma two_uploaded_items: "session_items two_uploaded = [first_doc, second_doc]"
  by (simp add: example_defs model_defs)

section \<open>The data-URI header\<close>

lemma starts_with_iff: "starts_with lit s \<longleftrightarrow> (\<exists>r. s = lit @ r)"
  by (induction lit s rule: starts_with.induct) auto

lemma starts_with_drop: "starts_with lit s \<Longrightarrow> s = lit @ drop (length lit) s"
  by (auto simp: starts_with_iff)

lemma contains_iff: "contains lit s \<longleftrightarrow> (\<exists>t r. s = t @ lit @ r)"
proof (induction s)
  case Nil
  then show ?case by auto
next
  case (Cons c cs)
  show ?case
  proof
    assume "contains lit (c # cs)"
    then consider "starts_with lit (c # cs)" | "contains lit cs" by auto
    then show "\<exists>t r. c # cs = t @ lit @ r"
    proof cases
      case 1
      then obtain r where "c # cs = lit @ r" by (auto simp: starts_with_iff)
      then have "c # cs = [] @ lit @ r" by simp
      then show ?thesis by blast
    next
      case 2
      then obtain t r where "cs = t @ lit @ r" using Cons.IH by blast
      then have "c # cs = (c # t) @ lit @ r" by simp
      then show ?thesis by blast
    qed
  next
    assume "\<exists>t r. c # cs = t @ lit @ r"
    then obtain t r where eq: "c # cs = t @ lit @ r" by blast
    show "contains lit (c # cs)"
    proof (cases t)
      case Nil
      with eq have "starts_with lit (c # cs)" by (auto simp: starts_with_iff)
      then show ?thesis by simp
    next
      case (Cons a t')
      with eq have "cs = t' @ lit @ r" by simp
      then have "contains lit cs" using Cons.IH by blast
      then show ?thesis by simp
    qed
  qed
qed

lemma begins_with_data_uri_header_iff:
  "begins_with_data_uri_header s \<longleftrightarrow> (\<exists>t r. s = js ''data:'' @ t @ js '';base64,'' @ r)"
  unfolding begins_with_data_uri_header_def starts_with_iff contains_iff
  by (auto, blast+)

lemma lazy_group_then_Some:
  "lazy_group_then lit s = Some (g, r) \<Longrightarrow> s = g @ lit @ r"
proof (induction s arbitrary: g r)
  case Nil
  then show ?case by (auto split: if_splits)
next
  case (Cons c cs)
  show ?case
  proof (cases "starts_with lit (c # cs)")
    case True
    with Cons.prems have "g = []" "r = drop (length lit) (c # cs)" by auto
    with starts_with_drop[OF True] show ?thesis by simp
  next
    case False
    with Cons.prems obtain g' where "lazy_group_then lit cs = Some (g', r)" "g = c # g'"
      by (auto split: if_splits)
    with Cons.IH show ?thesis by auto
  qed
qed

lemma header_match_Some: "header_match s = Some (g, r) \<Longrightarrow> begins_with_data_uri_header s"
  unfolding begins_with_data_uri_header_iff
  by (auto simp: header_match_def starts_with_iff dest!: lazy_group_then_Some split: if_splits)

lemma header_match_None: "\<not> begins_with_data_uri_header s \<Longrightarrow> header_match s = None"
  using header_match_Some by (cases "header_match s") auto

text \<open>
  C10. For every input string that does not begin with a data-URI header of the form
  \<^verbatim>\<open>data:<type>;base64,\<close>, the extraction client issues its request with the whole
  string, unmodified, as the payload and with the content type \<^verbatim>\<open>image/jpeg\<close>.
\<close>

theorem request_without_header:
  "\<not> begins_with_data_uri_header s \<Longrightarrow>
     analyzeInvoiceImage_request s = \<lparr>inline_mimeType = js ''image/jpeg'', inline_data = s\<rparr>
     \<and> analyzeInvoiceImage generateContent parse s =
         analyzeInvoiceImage_result parse
           (generateContent \<lparr>inline_mimeType = js ''image/jpeg'', inline_data = s\<rparr>)
     \<and> trace (analyzeItem_encoded k item rest (Inr s) st) =
         trace st @
           [(k, RequestIssued (item_id item) \<lparr>inline_mimeType = js ''image/jpeg'', inline_data = s\<rparr>)]"
  by (simp add: analyzeInvoiceImage_request_def analyzeInvoiceImage_def analyzeItem_encoded_def
      header_match_None)

theorem request_without_header_witness:
  "\<not> begins_with_data_uri_header (js ''/9j/4AAQ'')
   \<and> analyzeInvoiceImage_request (js ''/9j/4AAQ'')
       = \<lparr>inline_mimeType = js ''image/jpeg'', inline_data = js ''/9j/4AAQ''\<rparr>"
proof -
  have h: "\<not> begins_with_data_uri_header (js ''/9j/4AAQ'')"
    by (simp add: begins_with_data_uri_header_def js_def)
  from request_without_header[OF h] h show ?thesis by blast
qed

section \<open>Store updates\<close>

lemma map_cond_id: "\<forall>x\<in>set xs. \<not> P x \<Longrightarrow> map (\<lambda>i. if P i then f i else i) xs = xs"
  by (induction xs) auto

text \<open>
  C6. When the item an extraction was started for is no longer in the store, applying the
  completion update, success or failure, leaves the collection as it is: the item is not
  created again and no other item changes.
\<close>

theorem completion_for_removed_item:
  "\<not> list_ex (\<lambda>i. item_id i = item_id item) (session_items st) \<Longrightarrow>
     set_success (item_id item) res (session_items st) = session_items st
     \<and> set_error (item_id item) (session_items st) = session_items st
     \<and> session_items (analyzeItem_succeed k item res st) = session_items st
     \<and> session_items (analyzeItem_catch k item st) = session_items st"
  by (simp add: set_success_def set_error_def analyzeItem_succeed_def analyzeItem_catch_def
      list_ex_iff map_cond_id)

theorem completion_for_removed_item_witness:
  "\<not> list_ex (\<lambda>i. item_id i = item_id first_doc) (session_items (handleRemoveItem (js ''id-1'') two_uploaded))
   \<and> set_success (item_id first_doc) widget_invoice
        (session_items (handleRemoveItem (js ''id-1'') two_uploaded)) = [second_doc]
   \<and> set_error (item_id first_doc)
        (session_items (handleRemoveItem (js ''id-1'') two_uploaded)) = [second_doc]"
proof -
  have s: "session_items (handleRemoveItem (js ''id-1'') two_uploaded) = [second_doc]"
    by (simp add: handleRemoveItem_def two_uploaded_items first_doc_def second_doc_def js_def Let_def)
  have h: "\<not> list_ex (\<lambda>i. item_id i = item_id first_doc)
      (session_items (handleRemoveItem (js ''id-1'') two_uploaded))"
    using s by (simp add: first_doc_def second_doc_def js_def)
  from completion_for_removed_item[OF h, of widget_invoice] h show ?thesis
    using s by simp
qed

text \<open>
  C5. When an extraction fails, because the request rejects, the response has no text or
  an empty text, the text does not parse, or the file cannot be read, the call goes to the
  catch block; there every item with the id of the analysed item gets status \<open>ERROR\<close> and
  the fixed, non-empty failure message, keeps its id, file, preview URL and result, and every
  other item is unchanged.
\<close>

theorem failure_frame:
  assumes "r = Inl e \<or> r = Inr None \<or> r = Inr (Some []) \<or> (r = Inr (Some t) \<and> parse t = Inl e)"
  shows "analyzeItem_responded parse k item rest r st
           = continue_loop k rest (analyzeItem_catch k item st)
     \<and> analyzeItem_encoded k item rest (Inl e') st
           = continue_loop k rest (analyzeItem_catch k item st)
     \<and> length (session_items (analyzeItem_catch k item st)) = length (session_items st)
     \<and> (\<forall>n < length (session_items st).
           let old = session_items st ! n; new = session_items (analyzeItem_catch k item st) ! n
           in if item_id old = item_id item
              then status new = ERROR \<and> error new = Some FAILURE_MESSAGE \<and> FAILURE_MESSAGE \<noteq> []
                \<and> item_id new = item_id old \<and> file' new = file' old
                \<and> previewUrl new = previewUrl old \<and> result new = result old
              else new = old)"
  using assms
  by (auto simp: analyzeItem_responded_def analyzeInvoiceImage_result_def analyzeItem_encoded_def
      analyzeItem_catch_def set_error_def FAILURE_MESSAGE_def Let_def)

theorem failure_frame_witness:
  "analyzeItem_responded example_parse 0 first_doc [] (Inr None) two_uploaded
     = continue_loop 0 [] (analyzeItem_catch 0 first_doc two_uploaded)
   \<and> map status (session_items (analyzeItem_catch 0 first_doc two_uploaded)) = [ERROR, IDLE]"
proof -
  have h: "(Inr None :: exn + jsstring option) = Inl Rejected \<or> (Inr None :: exn + jsstring option) = Inr None
      \<or> (Inr None :: exn + jsstring option) = Inr (Some [])
      \<or> ((Inr None :: exn + jsstring option) = Inr (Some []) \<and> example_parse [] = Inl Rejected)"
    by simp
  from failure_frame[where r = "Inr None" and e = Rejected and t = "[]" and parse = example_parse
      and k = 0 and item = first_doc and rest = "[]" and st = two_uploaded, OF h]
  have "analyzeItem_responded example_parse 0 first_doc [] (Inr None) two_uploaded
     = continue_loop 0 [] (analyzeItem_catch 0 first_doc two_uploaded)"
    by blast
  moreover have "map status (session_items (analyzeItem_catch 0 first_doc two_uploaded)) = [ERROR, IDLE]"
    by (simp add: two_uploaded_items analyzeItem_catch_def set_error_def first_doc_def second_doc_def js_def)
  ultimately show ?thesis by blast
qed

lemma filter_distinct_remove1:
  "distinct (map f xs) \<Longrightarrow> x \<in> set xs \<Longrightarrow> filter (\<lambda>i. f i \<noteq> f x) xs = remove1 x xs"
proof (induction xs)
  case Nil
  then show ?case by simp
next
  case (Cons a xs)
  show ?case
  proof (cases "a = x")
    case True
    with Cons.prems have "f x \<notin> f ` set xs" by simp
    then have "\<forall>i\<in>set xs. f i \<noteq> f x" by (metis imageI)
    then have "filter (\<lambda>i. f i \<noteq> f x) xs = xs" by (simp add: filter_id_conv)
    with True show ?thesis by simp
  next
    case False
    with Cons.prems have "x \<in> set xs" "f a \<noteq> f x" by auto
    with Cons show ?thesis using False by simp
  qed
qed

lemma find_distinct:
  "distinct (map f xs) \<Longrightarrow> x \<in> set xs \<Longrightarrow> find (\<lambda>i. f i = f x) xs = Some x"
  by (induction xs) (auto simp: image_iff)

text \<open>
  C9. In a store whose ids are distinct, removing an item by its id deletes exactly that
  item and keeps the order of the others, and revokes its preview URL; if the removed item
  was the active one, the first remaining item becomes active, or none when the store is now
  empty; otherwise the selection stays.
\<close>

theorem remove_item:
  assumes "distinct (map item_id (session_items st))"
    and "item \<in> set (session_items st)"
  shows "session_items (handleRemoveItem (item_id item) st) = remove1 item (session_items st)
     \<and> revokedUrls (handleRemoveItem (item_id item) st) = revokedUrls st @ [previewUrl item]
     \<and> activeItemId (handleRemoveItem (item_id item) st) =
         (if activeItemId st = Some (item_id item)
          then (case remove1 item (session_items st) of [] \<Rightarrow> None | x # xs \<Rightarrow> Some (item_id x))
          else activeItemId st)"
  using assms
  by (simp add: handleRemoveItem_def filter_distinct_remove1 find_distinct Let_def)

theorem remove_item_witness:
  "session_items (handleRemoveItem (item_id first_doc) two_uploaded) = [second_doc]
   \<and> revokedUrls (handleRemoveItem (item_id first_doc) two_uploaded) = [js ''blob:1'']
   \<and> activeItemId (handleRemoveItem (item_id first_doc) two_uploaded) = Some (js ''id-2'')"
proof -
  have d: "distinct (map item_id (session_items two_uploaded))"
    by (simp add: two_uploaded_items first_doc_def second_doc_def js_def)
  have m: "first_doc \<in> set (session_items two_uploaded)"
    by (simp add: two_uploaded_items)
  have a: "activeItemId two_uploaded = Some (item_id first_doc)"
    by (simp add: example_defs model_defs)
  have r: "revokedUrls two_uploaded = []"
    by (simp add: example_defs model_defs)
  have ne: "first_doc \<noteq> second_doc"
    by (simp add: first_doc_def second_doc_def js_def)
  from remove_item[OF d m] show ?thesis
    using ne by (simp add: two_uploaded_items a r) (simp add: first_doc_def second_doc_def)
qed

section \<open>Properties of the CSV export\<close>

text \<open>
  C7. If no document has status \<open>SUCCESS\<close> with a result, the export hands no file to the
  browser and returns the state unchanged.
\<close>

theorem export_without_success:
  "\<not> list_ex (\<lambda>i. status i = SUCCESS \<and> result i \<noteq> None) (session_items st) \<Longrightarrow>
     handleExportCSV now st = st \<and> downloads (handleExportCSV now st) = downloads st"
  by (simp add: handleExportCSV_def successItems_def list_ex_iff filter_empty_conv)

theorem export_without_success_witness:
  "\<not> list_ex (\<lambda>i. status i = SUCCESS \<and> result i \<noteq> None) (session_items two_uploaded)
   \<and> handleExportCSV (js ''2024-05-01T00:00:00.000Z'') two_uploaded = two_uploaded"
proof -
  have h: "\<not> list_ex (\<lambda>i. status i = SUCCESS \<and> result i \<noteq> None) (session_items two_uploaded)"
    by (simp add: two_uploaded_items first_doc_def second_doc_def)
  from export_without_success[OF h] h show ?thesis by blast
qed

lemma set_trim: "set (trim s) \<subseteq> set s"
proof -
  let ?P = "\<lambda>c. isWhiteSpace c \<or> isLineTerminator c"
  have d: "set (dropWhile ?P xs) \<subseteq> set xs" for xs
    by (auto dest: set_dropWhileD)
  have "set (trim s) = set (dropWhile ?P (rev (dropWhile ?P s)))"
    by (simp add: trim_def Let_def)
  also have "\<dots> \<subseteq> set (rev (dropWhile ?P s))" by (rule d)
  also have "\<dots> = set (dropWhile ?P s)" by simp
  also have "\<dots> \<subseteq> set s" by (rule d)
  finally show ?thesis .
qed

lemma set_join: "set (join sep xs) \<subseteq> set sep \<union> (\<Union>x \<in> set xs. set x)"
  by (induction sep xs rule: join.induct) auto

lemma safeDesc_no_quote: "DQUOTE \<notin> set (safeDesc li)"
proof -
  have "DQUOTE \<notin> set (replace_quotes_by_apostrophes (description li))"
    by (auto simp: replace_quotes_by_apostrophes_def DQUOTE_def APOSTROPHE_def)
  then show ?thesis
    using set_trim unfolding safeDesc_def by blast
qed

lemma item_text_no_quote:
  assumes "DQUOTE \<notin> set (number_to_string (quantity li))"
    and "DQUOTE \<notin> set (number_to_string (unitPrice li))"
    and "DQUOTE \<notin> set (number_to_string (total li))"
  shows "DQUOTE \<notin> set (item_text li)"
proof -
  have "DQUOTE \<notin> set (js '' (Qty: '')" "DQUOTE \<notin> set (js '', Unit: '')"
    "DQUOTE \<notin> set (js '', Total: '')" "DQUOTE \<notin> set (js '')'')"
    by (simp_all add: js_def DQUOTE_def)
  with assms safeDesc_no_quote[of li] show ?thesis
    by (simp add: item_text_def)
qed

text \<open>
  The two cells that are protected. In the items cell no description contributes a double
  quote, so the cell has none when the renderings of its numbers have none, as the
  renderings of number values do. The file-name cell is the file name with its quotes
  doubled.
\<close>

lemma items_cell_has_no_double_quote:
  assumes "\<forall>li \<in> set (items d).
      DQUOTE \<notin> set (number_to_string (quantity li))
      \<and> DQUOTE \<notin> set (number_to_string (unitPrice li))
      \<and> DQUOTE \<notin> set (number_to_string (total li))"
  shows "DQUOTE \<notin> set (itemsSummary d)"
proof
  assume "DQUOTE \<in> set (itemsSummary d)"
  then have "DQUOTE \<in> set [NEWLINE] \<union> (\<Union>x \<in> set (map item_text (validItems d)). set x)"
    using set_join unfolding itemsSummary_def by blast
  then obtain li where "li \<in> set (validItems d)" and "DQUOTE \<in> set (item_text li)"
    by (auto simp: DQUOTE_def NEWLINE_def)
  moreover from this(1) have "li \<in> set (items d)" by (simp add: validItems_def)
  ultimately show False
    using assms item_text_no_quote by blast
qed

lemma file_name_cell_doubled:
  "row_cells item d ! 0 = quoted (replace_quotes_by_doubled (file_name (file' item)))"
  by (simp add: row_cells_def)

text \<open>
  C1. Every exported field outside the items cell that contains a double quote has it
  doubled, and in the items cell a double quote of a description becomes an apostrophe.
  The second half holds (\<open>safeDesc_no_quote\<close>, \<open>items_cell_has_no_double_quote\<close>), and so
  does the first for the file name (\<open>file_name_cell_doubled\<close>). The five cells between them, invoice date, invoice
  number, PO number, quotation number and currency, are written as they are: for the invoice
  number \<^verbatim>\<open>A"B\<close> the cell is \<^verbatim>\<open>"A"B"\<close>, where doubling gives \<^verbatim>\<open>"A""B"\<close>.
\<close>

theorem csv_field_quote_not_doubled:
  "row_cells first_doc quoted_number_invoice ! 2 = [DQUOTE] @ js ''A'' @ [DQUOTE] @ js ''B'' @ [DQUOTE]
   \<and> quoted (replace_quotes_by_doubled (invoiceNumber quoted_number_invoice))
       = [DQUOTE] @ js ''A'' @ [DQUOTE, DQUOTE] @ js ''B'' @ [DQUOTE]"
  by (simp add: quoted_number_invoice_def example_defs export_defs string_defs)

text \<open>
  C2, as stated: each line item with a total other than zero is rendered as its
  description followed by \<^verbatim>\<open> (Qty: q, Unit: u, Total: t)\<close>. The description
  \<^verbatim>\<open> 5" pipe\<close>, with a leading space and a double quote, is rendered as
  \<^verbatim>\<open>5' pipe\<close>: the exporter replaces double quotes and trims the description.
\<close>

theorem items_cell_description_counterexample:
  "itemsSummary padded_invoice = js ''5'' @ [APOSTROPHE] @ js '' pipe (Qty: 1, Unit: 3, Total: 3)''
   \<and> itemsSummary padded_invoice
       \<noteq> join [NEWLINE] (map claimed_item_text (validItems padded_invoice))"
  by (simp add: padded_invoice_def example_defs export_defs claimed_item_text_def string_defs)

lemma csv_rows_Cons:
  "csv_rows (i # its) =
     (if status i = SUCCESS
      then (case result i of None \<Rightarrow> [] | Some d \<Rightarrow> [join (js '','') (row_cells i d)])
      else []) @ csv_rows its"
  by (auto simp: csv_rows_def successItems_def split: option.splits)

lemma widget_text:
  "item_text
     \<lparr>description = js ''Widget'', quantity = Number (js ''2''), unitPrice = Number (js ''500''),
      total = Number (js ''1000'')\<rparr>
     = js ''Widget (Qty: 2, Unit: 500, Total: 1000)''"
  by (simp add: export_defs string_defs)

lemma csv_rows_Nil_iff: "csv_rows its = [] \<longleftrightarrow> successItems its = []"
  by (simp add: csv_rows_def)

lemma handleExportCSV_file:
  "handleExportCSV now st =
     (if csv_rows (session_items st) = [] then st
      else st\<lparr>downloads :=
                downloads st @
                  [\<lparr>download_name = js ''invoices_export_'' @ take 10 now @ js ''.csv'',
                    download_type = js ''text/csv;charset=utf-8;'',
                    download_content =
                      65279 # join (js '','') headers @ [NEWLINE]
                        @ concat (map (\<lambda>row. row @ [NEWLINE]) (csv_rows (session_items st)))\<rparr>]\<rparr>)"
  by (simp add: handleExportCSV_def csvContent_def csv_rows_Nil_iff)

lemma mixed_numbers_text:
  "itemsSummary mixed_numbers_invoice
     = js ''B (Qty: 1.5, Unit: 19.99, Total: 29.985)'' @ [NEWLINE]
       @ js ''D (Qty: NaN, Unit: 1152921504606847000, Total: NaN)''"
  by (simp add: mixed_numbers_invoice_def widget_invoice_def export_defs string_defs)

lemma export_session_file:
  "map_option downloads (run example_parse init_app export_session) =
     Some [\<lparr>download_name = js ''invoices_export_2024-05-01.csv'',
            download_type = js ''text/csv;charset=utf-8;'',
            download_content =
              65279 #
              js ''File Name,Invoice Date,Invoice Number,PO Number,Quotation Number,Currency,Items Details,Invoice Total Amount''
              @ [NEWLINE]
              @ quoted (js ''a.png'') @ js '','' @ quoted (js ''2024-05-01'') @ js '',''
              @ quoted (js ''INV-1'') @ js '','' @ quoted [] @ js '','' @ quoted [] @ js '',''
              @ quoted (js ''USD'') @ js '',''
              @ quoted (js ''Widget (Qty: 2, Unit: 500, Total: 1000)'') @ js '','' @ js ''1000''
              @ [NEWLINE]\<rparr>]"
  by (simp add: export_session_def example_defs model_defs handleExportCSV_def csvContent_def
      csv_rows_def successItems_def headers_def export_defs string_defs)

text \<open>
  C2, amended. When at least one document has status \<open>SUCCESS\<close> and a result, the exported
  file is the byte-order mark, the header line and the rows, each ended by a line feed; the
  exporter emits one row for each document with status \<open>SUCCESS\<close> and a result, in store
  order, and none for any other document. A row has eight cells; the seventh is the items
  summary in quotes; the summary leaves out the line items whose total is zero and renders
  each remaining one as its description, with every double quote replaced by an apostrophe
  and then white space trimmed from both ends, followed by
  \<^verbatim>\<open> (Qty: q, Unit: u, Total: t)\<close>, joined by line feeds, where the numbers are written
  as the language prints them: decimals, large integers and NaN included, and NaN is not
  zero. For one successful document and one failed document there is one row, and the one
  item Widget with quantity 2, unit price 500 and total 1000 gives the summary
  \<^verbatim>\<open>Widget (Qty: 2, Unit: 500, Total: 1000)\<close>; the session of the example, from the upload
  to the export, hands the browser one file with the header line and that one row.
\<close>

theorem csv_export_rows:
  "handleExportCSV now st =
     (if csv_rows (session_items st) = [] then st
      else st\<lparr>downloads :=
                downloads st @
                  [\<lparr>download_name = js ''invoices_export_'' @ take 10 now @ js ''.csv'',
                    download_type = js ''text/csv;charset=utf-8;'',
                    download_content =
                      65279 # join (js '','') headers @ [NEWLINE]
                        @ concat (map (\<lambda>row. row @ [NEWLINE]) (csv_rows (session_items st)))\<rparr>]\<rparr>)
   \<and> csv_rows [] = []
   \<and> csv_rows (i # its) =
       (if status i = SUCCESS
        then (case result i of None \<Rightarrow> [] | Some d \<Rightarrow> [join (js '','') (row_cells i d)])
        else []) @ csv_rows its
   \<and> length (csv_rows its) = length (filter (\<lambda>i. status i = SUCCESS \<and> result i \<noteq> None) its)
   \<and> length (row_cells i d) = 8
   \<and> row_cells i d ! 6 = quoted (itemsSummary d)
   \<and> row_cells i d ! 7 = number_to_string (totalAmount d)
   \<and> itemsSummary d =
       join [NEWLINE]
         (map (\<lambda>li. trim (replace_quotes_by_apostrophes (description li))
                    @ js '' (Qty: '' @ number_to_string (quantity li)
                    @ js '', Unit: '' @ number_to_string (unitPrice li)
                    @ js '', Total: '' @ number_to_string (total li) @ js '')'')
            (filter (\<lambda>li. \<not> strictly_zero (total li)) (items d)))
   \<and> csv_rows [a\<lparr>status := SUCCESS, result := Some d\<rparr>, b\<lparr>status := ERROR\<rparr>]
       = [join (js '','') (row_cells (a\<lparr>status := SUCCESS, result := Some d\<rparr>) d)]
   \<and> itemsSummary
        (d\<lparr>items :=
             [\<lparr>description = js ''Widget'', quantity = Number (js ''2''),
               unitPrice = Number (js ''500''), total = Number (js ''1000'')\<rparr>]\<rparr>)
       = js ''Widget (Qty: 2, Unit: 500, Total: 1000)''
   \<and> itemsSummary mixed_numbers_invoice
       = js ''B (Qty: 1.5, Unit: 19.99, Total: 29.985)'' @ [NEWLINE]
         @ js ''D (Qty: NaN, Unit: 1152921504606847000, Total: NaN)''
   \<and> map_option downloads (run example_parse init_app export_session) =
       Some [\<lparr>download_name = js ''invoices_export_2024-05-01.csv'',
              download_type = js ''text/csv;charset=utf-8;'',
              download_content =
                65279 #
                js ''File Name,Invoice Date,Invoice Number,PO Number,Quotation Number,Currency,Items Details,Invoice Total Amount''
                @ [NEWLINE]
                @ quoted (js ''a.png'') @ js '','' @ quoted (js ''2024-05-01'') @ js '',''
                @ quoted (js ''INV-1'') @ js '','' @ quoted [] @ js '','' @ quoted [] @ js '',''
                @ quoted (js ''USD'') @ js '',''
                @ quoted (js ''Widget (Qty: 2, Unit: 500, Total: 1000)'') @ js '','' @ js ''1000''
                @ [NEWLINE]\<rparr>]"
proof -
  have rows: "csv_rows [] = []"
    "length (csv_rows its) = length (filter (\<lambda>i. status i = SUCCESS \<and> result i \<noteq> None) its)"
    "csv_rows [a\<lparr>status := SUCCESS, result := Some d\<rparr>, b\<lparr>status := ERROR\<rparr>]
       = [join (js '','') (row_cells (a\<lparr>status := SUCCESS, result := Some d\<rparr>) d)]"
    by (simp_all add: csv_rows_def successItems_def)
  have cells: "length (row_cells i d) = 8" "row_cells i d ! 6 = quoted (itemsSummary d)"
    "row_cells i d ! 7 = number_to_string (totalAmount d)"
    by (simp_all add: row_cells_def)
  have summary: "itemsSummary d =
       join [NEWLINE]
         (map (\<lambda>li. trim (replace_quotes_by_apostrophes (description li))
                    @ js '' (Qty: '' @ number_to_string (quantity li)
                    @ js '', Unit: '' @ number_to_string (unitPrice li)
                    @ js '', Total: '' @ number_to_string (total li) @ js '')'')
            (filter (\<lambda>li. \<not> strictly_zero (total li)) (items d)))"
    unfolding itemsSummary_def validItems_def item_text_def safeDesc_def ..
  have widget: "itemsSummary
        (d\<lparr>items :=
             [\<lparr>description = js ''Widget'', quantity = Number (js ''2''),
               unitPrice = Number (js ''500''), total = Number (js ''1000'')\<rparr>]\<rparr>)
       = js ''Widget (Qty: 2, Unit: 500, Total: 1000)''"
    by (simp add: itemsSummary_def validItems_def widget_text) (simp add: strictly_zero_def js_def)
  show ?thesis
    using handleExportCSV_file[of now st] csv_rows_Cons[of i its] rows cells summary widget
      mixed_numbers_text export_session_file
    by (intro conjI)
qed

section \<open>Suspended calls and their effects\<close>

lemma follow_all_append:
  "follow_all c (es @ es') = (case follow_all c es of None \<Rightarrow> None | Some c' \<Rightarrow> follow_all c' es')"
  by (induction es arbitrary: c) (auto split: option.splits)

lemma effects_of_append: "effects_of k (tr @ tr') = effects_of k tr @ effects_of k tr'"
  by (simp add: effects_of_def)

lemma effects_of_tagged: "effects_of k (map (Pair j) es) = (if j = k then es else [])"
  by (induction es) (auto simp: effects_of_def)

lemma effects_of_fresh: "\<forall>te \<in> set tr. fst te \<noteq> k \<Longrightarrow> effects_of k tr = []"
  by (induction tr) (auto simp: effects_of_def)

lemma continue_loop_resumes:
  assumes "tasks st1 = tasks st" and "trace st1 = trace st @ map (Pair j) es"
    and "follow_all (progress_of t) es = Some (Between, rest)"
  shows "resumes j t st (continue_loop j rest st1)"
proof (cases rest)
  case Nil
  have "tasks (continue_loop j rest st1) = (tasks st)[j := \<lparr>activity = Finished, remaining = []\<rparr>]"
    using Nil assms(1) by (simp add: continue_loop_def)
  moreover have "trace (continue_loop j rest st1) = trace st @ map (Pair j) es"
    using Nil assms(2) by (simp add: continue_loop_def)
  moreover have "follow_all (progress_of t) es
      = Some (progress_of \<lparr>activity = Finished, remaining = []\<rparr>)"
    using Nil assms(3) by (simp add: progress_of_def)
  ultimately show ?thesis unfolding resumes_def by blast
next
  case (Cons x xs)
  have "tasks (continue_loop j rest st1) = (tasks st)[j := \<lparr>activity = Encoding x, remaining = xs\<rparr>]"
    using Cons assms(1) by (simp add: continue_loop_def analyzeItem_begin_def)
  moreover have "trace (continue_loop j rest st1)
      = trace st @ map (Pair j) (es @ [StatusUpdate (item_id x) ANALYZING])"
    using Cons assms(2) by (simp add: continue_loop_def analyzeItem_begin_def)
  moreover have "follow_all (progress_of t) (es @ [StatusUpdate (item_id x) ANALYZING])
      = Some (progress_of \<lparr>activity = Encoding x, remaining = xs\<rparr>)"
    using Cons assms(3) by (simp add: follow_all_append progress_of_def)
  ultimately show ?thesis unfolding resumes_def by blast
qed

lemma catch_then_continue_resumes:
  assumes "progress_of t = (Marked item, rest) \<or> progress_of t = (InFlight item, rest)"
  shows "resumes j t st (continue_loop j rest (analyzeItem_catch j item st))"
proof (rule continue_loop_resumes)
  show "tasks (analyzeItem_catch j item st) = tasks st" by (simp add: analyzeItem_catch_def)
  show "trace (analyzeItem_catch j item st) = trace st @ map (Pair j) [StatusUpdate (item_id item) ERROR]"
    by (simp add: analyzeItem_catch_def)
  show "follow_all (progress_of t) [StatusUpdate (item_id item) ERROR] = Some (Between, rest)"
    using assms by auto
qed

lemma succeed_then_continue_resumes:
  assumes "progress_of t = (InFlight item, rest)"
  shows "resumes j t st (continue_loop j rest (analyzeItem_succeed j item res st))"
proof (rule continue_loop_resumes)
  show "tasks (analyzeItem_succeed j item res st) = tasks st" by (simp add: analyzeItem_succeed_def)
  show "trace (analyzeItem_succeed j item res st)
      = trace st @ map (Pair j) [StatusUpdate (item_id item) SUCCESS]"
    by (simp add: analyzeItem_succeed_def)
  show "follow_all (progress_of t) [StatusUpdate (item_id item) SUCCESS] = Some (Between, rest)"
    using assms by auto
qed

lemma encoded_resumes:
  assumes "activity t = Encoding item" and "remaining t = rest"
  shows "resumes j t st (analyzeItem_encoded j item rest r st)"
proof (cases r)
  case (Inl e)
  have "progress_of t = (Marked item, rest)" using assms by (simp add: progress_of_def)
  then show ?thesis using Inl by (simp add: analyzeItem_encoded_def catch_then_continue_resumes)
next
  case (Inr b)
  let ?t' = "\<lparr>activity = Requesting item, remaining = rest\<rparr>"
  let ?es = "[RequestIssued (item_id item) (analyzeInvoiceImage_request b)]"
  have "tasks (analyzeItem_encoded j item rest r st) = (tasks st)[j := ?t']"
    using Inr by (simp add: analyzeItem_encoded_def)
  moreover have "trace (analyzeItem_encoded j item rest r st) = trace st @ map (Pair j) ?es"
    using Inr by (simp add: analyzeItem_encoded_def)
  moreover have "follow_all (progress_of t) ?es = Some (progress_of ?t')"
    using assms by (simp add: progress_of_def)
  ultimately show ?thesis unfolding resumes_def by blast
qed

lemma responded_resumes:
  assumes "activity t = Requesting item" and "remaining t = rest"
  shows "resumes j t st (analyzeItem_responded parse j item rest r st)"
proof -
  have p: "progress_of t = (InFlight item, rest)" using assms by (simp add: progress_of_def)
  show ?thesis
    by (cases "analyzeInvoiceImage_result parse r")
      (simp_all add: analyzeItem_responded_def p catch_then_continue_resumes
        succeed_then_continue_resumes)
qed

lemma resumes_call_inv:
  assumes "resumes j (tasks st ! j) st st'" and "j < length (tasks st)" and "call_inv ps k st"
  shows "call_inv ps k st'"
proof -
  from assms(1) obtain t' es where
    t: "tasks st' = (tasks st)[j := t']" and tr: "trace st' = trace st @ map (Pair j) es"
    and f: "follow_all (progress_of (tasks st ! j)) es = Some (progress_of t')"
    unfolding resumes_def by blast
  from assms(3) have k: "k < length (tasks st)"
    and inv: "follow_all (Between, ps) (effects_of k (trace st)) = Some (progress_of (tasks st ! k))"
    unfolding call_inv_def by auto
  show ?thesis
  proof (cases "j = k")
    case True
    then show ?thesis
      using t tr f k inv
      by (simp add: call_inv_def effects_of_append effects_of_tagged follow_all_append)
  next
    case False
    then show ?thesis
      using t tr k inv
      by (simp add: call_inv_def effects_of_append effects_of_tagged)
  qed
qed

lemma resumes_trace_wf:
  assumes "resumes j t st st'" and "j < length (tasks st)" and "trace_wf st"
  shows "trace_wf st'"
  using assms unfolding resumes_def trace_wf_def by fastforce

lemma unchanged_call_inv:
  "tasks st' = tasks st \<Longrightarrow> trace st' = trace st \<Longrightarrow> call_inv ps k st \<Longrightarrow> call_inv ps k st'"
  by (simp add: call_inv_def)

lemma unchanged_trace_wf:
  "tasks st' = tasks st \<Longrightarrow> trace st' = trace st \<Longrightarrow> trace_wf st \<Longrightarrow> trace_wf st'"
  by (simp add: trace_wf_def)

lemma start_call_tasks_trace:
  "start_call (x # xs) st = st' \<Longrightarrow>
     tasks st' = tasks st @ [\<lparr>activity = Encoding x, remaining = xs\<rparr>]
     \<and> trace st' = trace st @ [(length (tasks st), StatusUpdate (item_id x) ANALYZING)]"
  by (auto simp: start_call_def analyzeItem_begin_def)

lemma start_call_Nil: "start_call [] st = st"
  by (simp add: start_call_def)

lemma start_call_new:
  assumes "trace_wf st"
  shows "call_inv (x # xs) (length (tasks st)) (start_call (x # xs) st)"
proof -
  have "effects_of (length (tasks st)) (trace st) = []"
    using assms by (intro effects_of_fresh) (auto simp: trace_wf_def)
  then show ?thesis
    using start_call_tasks_trace[OF refl, of x xs st]
    by (simp add: call_inv_def effects_of_append effects_of_def progress_of_def)
qed

lemma start_call_call_inv:
  assumes "call_inv ps k st"
  shows "call_inv ps k (start_call its st)"
proof (cases its)
  case Nil
  then show ?thesis using assms by (simp add: start_call_Nil)
next
  case (Cons x xs)
  from assms have "k < length (tasks st)" by (simp add: call_inv_def)
  then show ?thesis
    using assms start_call_tasks_trace[OF refl, of x xs st] Cons
    by (simp add: call_inv_def effects_of_append effects_of_def nth_append)
qed

lemma start_call_trace_wf:
  assumes "trace_wf st"
  shows "trace_wf (start_call its st)"
proof (cases its)
  case Nil
  then show ?thesis using assms by (simp add: start_call_Nil)
next
  case (Cons x xs)
  then show ?thesis
    using assms start_call_tasks_trace[OF refl, of x xs st]
    by (fastforce simp: trace_wf_def)
qed

lemma handlers_tasks_trace:
  "tasks (handleFilesSelect files st) = tasks st" "trace (handleFilesSelect files st) = trace st"
  "tasks (handleRemoveItem i st) = tasks st" "trace (handleRemoveItem i st) = trace st"
  "tasks (handleDataChange d st) = tasks st" "trace (handleDataChange d st) = trace st"
  "tasks (handleExportCSV now st) = tasks st" "trace (handleExportCSV now st) = trace st"
  by (simp_all add: handleFilesSelect_def handleRemoveItem_def handleDataChange_def
      handleExportCSV_def Let_def)

lemma step_call_inv:
  assumes "step parse st e = Some st'" and "call_inv ps k st"
  shows "call_inv ps k st'"
proof (cases e)
  case (FilesSelect files)
  then show ?thesis using assms
    by (auto split: if_splits intro: unchanged_call_inv simp: handlers_tasks_trace)
next
  case (ClickItem i)
  then show ?thesis using assms
    by (auto split: if_splits intro: unchanged_call_inv)
next
  case (ClickRemove i)
  then show ?thesis using assms
    by (auto split: if_splits intro: unchanged_call_inv simp: handlers_tasks_trace)
next
  case ClickAnalyzeActive
  then show ?thesis using assms
    by (auto split: if_splits option.splits simp: handleAnalyzeActive_def start_call_call_inv)
next
  case ClickAnalyzeAll
  then show ?thesis using assms
    by (auto split: if_splits simp: handleAnalyzeAll_def start_call_call_inv)
next
  case (ClickExport now)
  then show ?thesis using assms
    by (auto split: if_splits intro: unchanged_call_inv simp: handlers_tasks_trace)
next
  case (EditData d)
  then show ?thesis using assms
    by (auto split: if_splits option.splits intro: unchanged_call_inv simp: handlers_tasks_trace)
next
  case (FileRead j r)
  with assms obtain item where j: "j < length (tasks st)"
    and a: "activity (tasks st ! j) = Encoding item"
    and st': "st' = analyzeItem_encoded j item (remaining (tasks st ! j)) r st"
    by (auto split: if_splits activity.splits)
  show ?thesis
    unfolding st' using encoded_resumes[OF a refl] j assms(2) by (rule resumes_call_inv)
next
  case (Responded j r)
  with assms obtain item where j: "j < length (tasks st)"
    and a: "activity (tasks st ! j) = Requesting item"
    and st': "st' = analyzeItem_responded parse j item (remaining (tasks st ! j)) r st"
    by (auto split: if_splits activity.splits)
  show ?thesis
    unfolding st' using responded_resumes[OF a refl] j assms(2) by (rule resumes_call_inv)
qed

lemma step_trace_wf:
  assumes "step parse st e = Some st'" and "trace_wf st"
  shows "trace_wf st'"
proof (cases e)
  case (FilesSelect files)
  then show ?thesis using assms
    by (auto split: if_splits intro: unchanged_trace_wf simp: handlers_tasks_trace)
next
  case (ClickItem i)
  then show ?thesis using assms
    by (auto split: if_splits intro: unchanged_trace_wf)
next
  case (ClickRemove i)
  then show ?thesis using assms
    by (auto split: if_splits intro: unchanged_trace_wf simp: handlers_tasks_trace)
next
  case ClickAnalyzeActive
  then show ?thesis using assms
    by (auto split: if_splits option.splits simp: handleAnalyzeActive_def start_call_trace_wf)
next
  case ClickAnalyzeAll
  then show ?thesis using assms
    by (auto split: if_splits simp: handleAnalyzeAll_def start_call_trace_wf)
next
  case (ClickExport now)
  then show ?thesis using assms
    by (auto split: if_splits intro: unchanged_trace_wf simp: handlers_tasks_trace)
next
  case (EditData d)
  then show ?thesis using assms
    by (auto split: if_splits option.splits intro: unchanged_trace_wf simp: handlers_tasks_trace)
next
  case (FileRead j r)
  with assms obtain item where j: "j < length (tasks st)"
    and a: "activity (tasks st ! j) = Encoding item"
    and st': "st' = analyzeItem_encoded j item (remaining (tasks st ! j)) r st"
    by (auto split: if_splits activity.splits)
  show ?thesis
    unfolding st' using encoded_resumes[OF a refl] j assms(2) by (rule resumes_trace_wf)
next
  case (Responded j r)
  with assms obtain item where j: "j < length (tasks st)"
    and a: "activity (tasks st ! j) = Requesting item"
    and st': "st' = analyzeItem_responded parse j item (remaining (tasks st ! j)) r st"
    by (auto split: if_splits activity.splits)
  show ?thesis
    unfolding st' using responded_resumes[OF a refl] j assms(2) by (rule resumes_trace_wf)
qed

lemma run_call_inv:
  "run parse st evs = Some st' \<Longrightarrow> call_inv ps k st \<Longrightarrow> call_inv ps k st'"
  by (induction evs arbitrary: st) (auto split: option.splits dest: step_call_inv)

lemma run_trace_wf:
  "run parse st evs = Some st' \<Longrightarrow> trace_wf st \<Longrightarrow> trace_wf st'"
  by (induction evs arbitrary: st) (auto split: option.splits dest: step_trace_wf)

lemma init_trace_wf: "trace_wf init_app"
  by (simp add: trace_wf_def init_app_def)

lemma call_inv_finished:
  "call_inv ps k st \<Longrightarrow> activity (tasks st ! k) = Finished \<Longrightarrow>
     all_processed ps (effects_of k (trace st))"
  by (simp add: call_inv_def all_processed_def progress_of_def)

lemma follow_position:
  assumes "at_position ps f c" and "follow c e = Some c'"
  shows "at_position ps (f + (if is_final e then 1 else 0)) c'
     \<and> (case e of
          RequestIssued i rq \<Rightarrow> f < length ps \<and> i = item_id (ps ! f)
        | StatusUpdate i s \<Rightarrow> f < length ps \<and> i = item_id (ps ! f))"
proof -
  from assms(1) consider
      (b) "c = (Between, drop f ps)"
    | (m) "f < length ps" "c = (Marked (ps ! f), drop (Suc f) ps)"
    | (i) "f < length ps" "c = (InFlight (ps ! f), drop (Suc f) ps)"
    unfolding at_position_def by blast
  then show ?thesis
  proof cases
    case b
    show ?thesis
    proof (cases "drop f ps")
      case Nil
      with b assms(2) show ?thesis by (cases e) auto
    next
      case (Cons p ps')
      then have f: "f < length ps" by (cases "f < length ps") auto
      from Cons f have p: "p = ps ! f" "ps' = drop (Suc f) ps"
        by (simp_all add: Cons_nth_drop_Suc[symmetric])
      show ?thesis
      proof (cases e)
        case (StatusUpdate i s)
        with b Cons assms(2) have "i = item_id p" "s = ANALYZING" "c' = (Marked p, ps')"
          by (auto split: if_splits)
        with StatusUpdate f p show ?thesis by (simp add: at_position_def)
      next
        case (RequestIssued i rq)
        with b Cons assms(2) show ?thesis by simp
      qed
    qed
  next
    case m
    show ?thesis
    proof (cases e)
      case (StatusUpdate i s)
      with m assms(2) have "i = item_id (ps ! f)" "s = ERROR" "c' = (Between, drop (Suc f) ps)"
        by (auto split: if_splits)
      with StatusUpdate m show ?thesis by (simp add: at_position_def)
    next
      case (RequestIssued i rq)
      with m assms(2) have "i = item_id (ps ! f)" "c' = (InFlight (ps ! f), drop (Suc f) ps)"
        by (auto split: if_splits)
      with RequestIssued m show ?thesis by (simp add: at_position_def)
    qed
  next
    case i
    show ?thesis
    proof (cases e)
      case (StatusUpdate j s)
      with i assms(2) have "j = item_id (ps ! f)" "s = SUCCESS \<or> s = ERROR"
        "c' = (Between, drop (Suc f) ps)"
        by (auto split: if_splits)
      with StatusUpdate i show ?thesis by (auto simp add: at_position_def)
    next
      case (RequestIssued j rq)
      with i assms(2) show ?thesis by simp
    qed
  qed
qed

lemma follow_all_position:
  "follow_all (Between, ps) es = Some c \<Longrightarrow> at_position ps (final_updates es) c"
proof (induction es arbitrary: c rule: rev_induct)
  case Nil
  then show ?case by (auto simp: at_position_def final_updates_def)
next
  case (snoc e es)
  from snoc.prems obtain c1 where c1: "follow_all (Between, ps) es = Some c1"
    and e: "follow c1 e = Some c"
    by (auto simp: follow_all_append split: option.splits)
  from snoc.IH[OF c1] e have "at_position ps (final_updates es + (if is_final e then 1 else 0)) c"
    using follow_position by blast
  then show ?case by (cases "is_final e") (simp_all add: final_updates_def)
qed

lemma follow_all_effect_position:
  assumes "follow_all (Between, ps) (pre @ e # post) \<noteq> None"
  shows "final_updates pre < length ps
     \<and> (case e of RequestIssued i rq \<Rightarrow> i = item_id (ps ! final_updates pre)
                 | StatusUpdate i s \<Rightarrow> i = item_id (ps ! final_updates pre))"
proof -
  from assms obtain c1 c2 where c1: "follow_all (Between, ps) pre = Some c1"
    and e: "follow c1 e = Some c2"
    by (auto simp: follow_all_append split: option.splits)
  from follow_all_position[OF c1] e show ?thesis
    using follow_position[of ps "final_updates pre" c1 e c2] by (cases e) auto
qed

lemma follow_to_Marked:
  "follow c e = Some (Marked p, ps) \<Longrightarrow> e = StatusUpdate (item_id p) ANALYZING"
  by (induction c e rule: follow.induct) (auto split: if_splits)

lemma follow_RequestIssued:
  "follow c (RequestIssued i rq) = Some c' \<Longrightarrow> \<exists>p ps. c = (Marked p, ps) \<and> i = item_id p"
  by (induction c "RequestIssued i rq" rule: follow.induct) (auto split: if_splits)

lemma follow_all_request_preceded:
  assumes "follow_all (Between, ps) (pre @ RequestIssued i rq # post) \<noteq> None"
  shows "pre \<noteq> [] \<and> last pre = StatusUpdate i ANALYZING"
proof -
  from assms obtain c1 c2 where c1: "follow_all (Between, ps) pre = Some c1"
    and e: "follow c1 (RequestIssued i rq) = Some c2"
    by (auto simp: follow_all_append split: option.splits)
  from e obtain p ps' where c1': "c1 = (Marked p, ps')" and i: "i = item_id p"
    using follow_RequestIssued by blast
  show ?thesis
  proof (cases pre rule: rev_cases)
    case Nil
    with c1 c1' show ?thesis by simp
  next
    case (snoc pre' e')
    with c1 c1' obtain c0 where "follow c0 e' = Some (Marked p, ps')"
      by (auto simp: follow_all_append split: option.splits)
    then have "e' = StatusUpdate (item_id p) ANALYZING" by (rule follow_to_Marked)
    with snoc i show ?thesis by simp
  qed
qed

lemma step_new_call:
  assumes "step parse st e = Some st'" and "trace_wf st"
    and "k < length (tasks st')" and "length (tasks st) \<le> k"
  shows "\<exists>ps. call_inv ps k st'"
proof -
  have start: "\<exists>ps. call_inv ps k (start_call its st)" if "st' = start_call its st" for its
  proof (cases its)
    case Nil
    with that assms(3,4) show ?thesis by (simp add: start_call_Nil)
  next
    case (Cons x xs)
    with that assms(3,4) have "k = length (tasks st)"
      using start_call_tasks_trace[OF refl, of x xs st] by simp
    with Cons show ?thesis using start_call_new[OF assms(2)] by blast
  qed
  have same: False if "length (tasks st') = length (tasks st)"
    using that assms(3,4) by simp
  show ?thesis
  proof (cases e)
    case (FilesSelect files)
    then show ?thesis using assms(1) same
      by (auto split: if_splits simp: handlers_tasks_trace)
  next
    case (ClickItem i)
    then show ?thesis using assms(1) same by (auto split: if_splits)
  next
    case (ClickRemove i)
    then show ?thesis using assms(1) same
      by (auto split: if_splits simp: handlers_tasks_trace)
  next
    case ClickAnalyzeActive
    then show ?thesis using assms(1) start
      by (auto split: if_splits option.splits simp: handleAnalyzeActive_def)
  next
    case ClickAnalyzeAll
    then show ?thesis using assms(1) start
      by (auto split: if_splits simp: handleAnalyzeAll_def)
  next
    case (ClickExport now)
    then show ?thesis using assms(1) same
      by (auto split: if_splits simp: handlers_tasks_trace)
  next
    case (EditData d)
    then show ?thesis using assms(1) same
      by (auto split: if_splits option.splits simp: handlers_tasks_trace)
  next
    case (FileRead j r)
    with assms(1) obtain item where a: "activity (tasks st ! j) = Encoding item"
      and st': "st' = analyzeItem_encoded j item (remaining (tasks st ! j)) r st"
      by (auto split: if_splits activity.splits)
    from encoded_resumes[OF a refl, of j st r] have "length (tasks st') = length (tasks st)"
      unfolding st' resumes_def by auto
    with same show ?thesis by blast
  next
    case (Responded j r)
    with assms(1) obtain item where a: "activity (tasks st ! j) = Requesting item"
      and st': "st' = analyzeItem_responded parse j item (remaining (tasks st ! j)) r st"
      by (auto split: if_splits activity.splits)
    from responded_resumes[OF a refl, of j st parse r] have "length (tasks st') = length (tasks st)"
      unfolding st' resumes_def by auto
    with same show ?thesis by blast
  qed
qed

lemma run_every_call:
  "run parse st evs = Some st' \<Longrightarrow> trace_wf st \<Longrightarrow>
     \<forall>k < length (tasks st). \<exists>ps. call_inv ps k st \<Longrightarrow>
     \<forall>k < length (tasks st'). \<exists>ps. call_inv ps k st'"
proof (induction evs arbitrary: st)
  case Nil
  then show ?case by simp
next
  case (Cons e evs)
  from Cons.prems(1) obtain st1 where s: "step parse st e = Some st1"
    and r: "run parse st1 evs = Some st'"
    by (auto split: option.splits)
  have wf1: "trace_wf st1" using s Cons.prems(2) by (rule step_trace_wf)
  have "\<forall>k < length (tasks st1). \<exists>ps. call_inv ps k st1"
  proof (intro allI impI)
    fix k assume k: "k < length (tasks st1)"
    show "\<exists>ps. call_inv ps k st1"
    proof (cases "k < length (tasks st)")
      case True
      with Cons.prems(3) obtain ps where "call_inv ps k st" by blast
      with s have "call_inv ps k st1" by (rule step_call_inv)
      then show ?thesis ..
    next
      case False
      then show ?thesis using step_new_call[OF s Cons.prems(2) k] by simp
    qed
  qed
  with Cons.IH[OF r wf1] show ?case by blast
qed

lemma reachable_call_follows:
  assumes "run parse init_app evs = Some st" and "k < length (tasks st)"
  shows "\<exists>ps. follow_all (Between, ps) (effects_of k (trace st)) \<noteq> None"
proof -
  have "\<forall>k < length (tasks st). \<exists>ps. call_inv ps k st"
    using assms(1) init_trace_wf by (rule run_every_call) (simp add: init_app_def)
  with assms(2) obtain ps where "call_inv ps k st" by blast
  then have "follow_all (Between, ps) (effects_of k (trace st)) \<noteq> None"
    by (simp add: call_inv_def)
  then show ?thesis ..
qed

text \<open>
  C3, about the requests that the batch itself issues. Take any reachable state in which
  the batch button is pressed, and any events after it, user actions and settled reads and
  requests of this and of other calls, in any order. The batch selects the documents that are \<open>IDLE\<close> or \<open>ERROR\<close> at that moment, in
  store order. The effects of the batch call follow the one-at-a-time discipline over that
  selection: every effect, a status update or an issued request, is about the document whose
  position in the selection is the number of final updates the call has applied before it.
  So the request for a document is issued only after the final update of the document before
  it. When the call has ended, every selected document has been processed.
\<close>

theorem batch_one_at_a_time:
  assumes "run parse init_app evs1 = Some st1"
    and "step parse st1 ClickAnalyzeAll = Some st2"
    and "run parse st2 evs2 = Some st3"
  shows "pendingItems (session_items st1)
           = filter (\<lambda>i. status i = IDLE \<or> status i = ERROR) (session_items st1)
     \<and> one_at_a_time (pendingItems (session_items st1))
         (effects_of (length (tasks st1)) (trace st3))
     \<and> (\<forall>pre e post. effects_of (length (tasks st1)) (trace st3) = pre @ e # post \<longrightarrow>
           final_updates pre < length (pendingItems (session_items st1))
           \<and> effect_id e = item_id (pendingItems (session_items st1) ! final_updates pre))
     \<and> (activity (tasks st3 ! length (tasks st1)) = Finished \<longrightarrow>
           all_processed (pendingItems (session_items st1))
             (effects_of (length (tasks st1)) (trace st3)))"
proof -
  let ?ps = "pendingItems (session_items st1)"
  let ?k = "length (tasks st1)"
  let ?es = "effects_of ?k (trace st3)"
  have wf: "trace_wf st1" using assms(1) init_trace_wf by (rule run_trace_wf)
  from assms(2) have ex: "list_ex (\<lambda>i. status i = IDLE \<or> status i = ERROR) (session_items st1)"
    and st2: "st2 = start_call ?ps st1"
    by (auto split: if_splits simp: handleAnalyzeAll_def)
  from ex obtain x xs where ps: "?ps = x # xs"
    by (cases ?ps) (auto simp: pendingItems_def list_ex_iff filter_empty_conv)
  have "call_inv ?ps ?k st2"
    unfolding st2 ps using wf by (rule start_call_new)
  with assms(3) have inv: "call_inv ?ps ?k st3" by (rule run_call_inv)
  then have ok: "follow_all (Between, ?ps) ?es \<noteq> None"
    by (simp add: call_inv_def)
  have pos: "final_updates pre < length ?ps \<and> effect_id e = item_id (?ps ! final_updates pre)"
    if "?es = pre @ e # post" for pre e post
    using follow_all_effect_position[of ?ps pre e post] ok that by (cases e) auto
  from ok have "one_at_a_time ?ps ?es" by (simp add: one_at_a_time_def)
  moreover have "?ps = filter (\<lambda>i. status i = IDLE \<or> status i = ERROR) (session_items st1)"
    by (simp add: pendingItems_def)
  ultimately show ?thesis using pos call_inv_finished[OF inv] by blast
qed

theorem batch_one_at_a_time_witness:
  "\<exists>st3. run example_parse (handleAnalyzeAll two_uploaded)
            [FileRead 0 (Inr (js ''data:image/png;base64,AAAA'')),
             Responded 0 (Inr (Some (js ''{}''))), FileRead 0 (Inl Rejected)] = Some st3
     \<and> one_at_a_time [first_doc, second_doc] (effects_of 0 (trace st3))
     \<and> all_processed [first_doc, second_doc] (effects_of 0 (trace st3))"
proof -
  let ?evs = "[FileRead 0 (Inr (js ''data:image/png;base64,AAAA'')),
             Responded 0 (Inr (Some (js ''{}''))), FileRead 0 (Inl Rejected)]"
  have r1: "run example_parse init_app [FilesSelect example_upload] = Some two_uploaded"
    by (simp add: example_defs)
  have s: "step example_parse two_uploaded ClickAnalyzeAll = Some (handleAnalyzeAll two_uploaded)"
    by (simp add: two_uploaded_items first_doc_def)
  have "map_option (\<lambda>st. activity (tasks st ! 0)) (run example_parse (handleAnalyzeAll two_uploaded) ?evs)
      = Some Finished"
    by (simp add: example_defs model_defs js_def)
  then obtain st3 where r3: "run example_parse (handleAnalyzeAll two_uploaded) ?evs = Some st3"
    and fin: "activity (tasks st3 ! 0) = Finished"
    unfolding map_option_eq_Some by blast
  have t: "length (tasks two_uploaded) = 0" by (simp add: example_defs model_defs)
  have p: "pendingItems (session_items two_uploaded) = [first_doc, second_doc]"
    by (simp add: two_uploaded_items pendingItems_def first_doc_def second_doc_def)
  have a: "one_at_a_time [first_doc, second_doc] (effects_of 0 (trace st3))"
    using batch_one_at_a_time[OF r1 s r3] unfolding t p by blast
  have b: "all_processed [first_doc, second_doc] (effects_of 0 (trace st3))"
    using batch_one_at_a_time[OF r1 s r3] fin unfolding t p by blast
  show ?thesis using r3 a b by blast
qed

text \<open>
  C8. Wherever an analysis is started, by a new call or by the loop of a batch going on,
  the store update applied first gives every item with that id status \<open>ANALYZING\<close> and no
  error message, and changes nothing else. In every reachable state, a request issued by a
  call is directly preceded, among the effects of that call, by this update for the same
  item.
\<close>

theorem analysis_start_marks_before_request:
  assumes "run parse init_app evs = Some st1" and "c < length (tasks st1)"
    and "effects_of c (trace st1) = pre @ RequestIssued i rq # post"
  shows "session_items (start_call (item # rest) st) = set_analyzing (item_id item) (session_items st)
     \<and> session_items (continue_loop k (item # rest) st)
         = set_analyzing (item_id item) (session_items st)
     \<and> length (set_analyzing target its) = length its
     \<and> (\<forall>n < length its.
           let old = its ! n; new = set_analyzing target its ! n
           in if item_id old = target
              then status new = ANALYZING \<and> error new = None
                \<and> item_id new = item_id old \<and> file' new = file' old
                \<and> previewUrl new = previewUrl old \<and> result new = result old
              else new = old)
     \<and> pre \<noteq> [] \<and> last pre = StatusUpdate i ANALYZING"
proof -
  from reachable_call_follows[OF assms(1,2)] obtain ps where
    "follow_all (Between, ps) (effects_of c (trace st1)) \<noteq> None" by blast
  then have "pre \<noteq> [] \<and> last pre = StatusUpdate i ANALYZING"
    unfolding assms(3) by (rule follow_all_request_preceded)
  moreover have "session_items (start_call (item # rest) st)
      = set_analyzing (item_id item) (session_items st)"
    by (simp add: start_call_def analyzeItem_begin_def)
  moreover have "session_items (continue_loop k (item # rest) st)
      = set_analyzing (item_id item) (session_items st)"
    by (simp add: continue_loop_def analyzeItem_begin_def)
  moreover have "length (set_analyzing target its) = length its"
    by (simp add: set_analyzing_def)
  moreover have "\<forall>n < length its.
           let old = its ! n; new = set_analyzing target its ! n
           in if item_id old = target
              then status new = ANALYZING \<and> error new = None
                \<and> item_id new = item_id old \<and> file' new = file' old
                \<and> previewUrl new = previewUrl old \<and> result new = result old
              else new = old"
    by (simp add: set_analyzing_def Let_def)
  ultimately show ?thesis by blast
qed

theorem analysis_start_marks_before_request_witness:
  "\<exists>st1. run example_parse init_app
            [FilesSelect example_upload, ClickAnalyzeAll,
             FileRead 0 (Inr (js ''data:image/png;base64,AAAA''))] = Some st1
     \<and> effects_of 0 (trace st1) =
         [StatusUpdate (js ''id-1'') ANALYZING]
           @ RequestIssued (js ''id-1'') \<lparr>inline_mimeType = js ''image/png'', inline_data = js ''AAAA''\<rparr> # []
     \<and> last [StatusUpdate (js ''id-1'') ANALYZING] = StatusUpdate (js ''id-1'') ANALYZING"
proof -
  let ?evs = "[FilesSelect example_upload, ClickAnalyzeAll,
             FileRead 0 (Inr (js ''data:image/png;base64,AAAA''))]"
  let ?rq = "\<lparr>inline_mimeType = js ''image/png'', inline_data = js ''AAAA''\<rparr>"
  have "map_option (\<lambda>st. (length (tasks st), effects_of 0 (trace st))) (run example_parse init_app ?evs)
      = Some (1, [StatusUpdate (js ''id-1'') ANALYZING] @ RequestIssued (js ''id-1'') ?rq # [])"
    by (simp add: example_defs model_defs effects_of_def analyzeInvoiceImage_request_def
        header_match_def isLineTerminator_def js_def)
  then obtain st1 where r: "run example_parse init_app ?evs = Some st1"
    and le: "(length (tasks st1), effects_of 0 (trace st1))
        = (1, [StatusUpdate (js ''id-1'') ANALYZING] @ RequestIssued (js ''id-1'') ?rq # [])"
    unfolding map_option_eq_Some by blast
  from le have l: "0 < length (tasks st1)"
    and e: "effects_of 0 (trace st1)
        = [StatusUpdate (js ''id-1'') ANALYZING] @ RequestIssued (js ''id-1'') ?rq # []"
    by simp_all
  from analysis_start_marks_before_request[OF r l e]
  have "last [StatusUpdate (js ''id-1'') ANALYZING] = StatusUpdate (js ''id-1'') ANALYZING"
    by blast
  with r e show ?thesis by blast
qed

text \<open>
  C4. No transition leaves \<open>SUCCESS\<close> except removal. A batch keeps the documents it
  selected when it was started and later marks each of them \<open>ANALYZING\<close> whatever its status
  is by then. In the example run two documents are uploaded and the batch button is pressed
  twice, the second time while the first batch is at its first document, so that the second
  document is selected by both batches. The second batch completes the second document,
  which is then \<open>SUCCESS\<close>; when the first document completes, the first batch goes on to
  the second document and sets it from \<open>SUCCESS\<close> back to \<open>ANALYZING\<close>.
\<close>

theorem success_item_reanalyzed:
  "map_option (\<lambda>st. map (\<lambda>i. (item_id i, status i)) (session_items st))
     (run example_parse init_app overlapping_batches)
     = Some [(js ''id-1'', ANALYZING), (js ''id-2'', SUCCESS)]
   \<and> map_option (\<lambda>st. map (\<lambda>i. (item_id i, status i)) (session_items st))
       (run example_parse init_app (overlapping_batches @ [Responded 0 (Inr (Some (js ''{}'')))]))
       = Some [(js ''id-1'', SUCCESS), (js ''id-2'', ANALYZING)]"
  by (simp add: overlapping_batches_def example_defs model_defs js_def)

end
